theory Spec2Isabelle
  imports Complex_Main
begin

section \<open>Values exchanged with the outside\<close>

text \<open>
  Decoded JSON, as Python's \<^verbatim>\<open>json\<close> module produces it. \<open>JNull\<close> is Python's
  \<^verbatim>\<open>None\<close>; an object is a \<^verbatim>\<open>dict\<close> in insertion order. A finite float is carried
  as the rational it denotes.
\<close>

datatype json =
    JNull
  | JBool bool
  | JInt int
  | JFloat rat
  | JStr string
  | JList "json list"
  | JObj "(string \<times> json) list"

section \<open>The client (client.py)\<close>

subsection \<open>Messages, response blocks and gateways\<close>

datatype role = User | Assistant

text \<open>The dictionaries that \<^verbatim>\<open>process_query\<close> puts into a message's content list.\<close>

datatype content_item =
    TextItem string
  | ToolUseItem string string json
  | ToolResultItem string string

text \<open>A message's content is either a plain string or a list of such dictionaries.\<close>

datatype msg_content = Plain string | Items "content_item list"

record message =
  role :: role
  content :: msg_content

text \<open>
  The blocks of a model response, by their \<^verbatim>\<open>type\<close> tag. A \<^verbatim>\<open>tool_use\<close> block carries
  \<^verbatim>\<open>id\<close>, \<^verbatim>\<open>name\<close>, \<^verbatim>\<open>input\<close> and, when it has one, a \<^verbatim>\<open>text\<close> attribute. A block of
  any other type is \<open>OtherBlock\<close>.
\<close>

datatype block =
    TextBlock string
  | ToolUseBlock string string json "string option"
  | OtherBlock

record tool =
  tool_name :: string
  tool_description :: string
  tool_inputSchema :: json

type_synonym tool_param = "string \<times> string \<times> json"

text \<open>
  The two gateways are outside the repository. Each call takes the state of the outside
  world and returns its answer with the next state, so an answer may depend on everything
  that happened before. \<open>call_tool\<close> yields the \<^verbatim>\<open>text\<close> of every piece of
  \<^verbatim>\<open>result.content\<close>; \<open>create\<close> yields \<^verbatim>\<open>response.content\<close>. A gateway call is
  taken to return: \<^verbatim>\<open>process_query\<close> has no handler of its own, and a call that
  raises leaves it at that point.
\<close>

record 'w gateways =
  list_tools :: "'w \<Rightarrow> tool list \<times> 'w"
  call_tool :: "string \<Rightarrow> json \<Rightarrow> 'w \<Rightarrow> string list \<times> 'w"
  create :: "string \<Rightarrow> message list \<Rightarrow> tool_param list \<Rightarrow> nat \<Rightarrow> 'w \<Rightarrow> block list \<times> 'w"

text \<open>What \<^verbatim>\<open>print\<close> receives.\<close>

datatype printed = PrintText string | PrintCalling string json

text \<open>
  The observable steps of a query, in order: an inference call, a tool execution (name,
  arguments, returned texts) and an append to \<^verbatim>\<open>self.messages\<close>.
\<close>

datatype event = Infer | Call string json "string list" | Append message

text \<open>
  The state of \<^verbatim>\<open>process_query\<close>: \<^verbatim>\<open>self.messages\<close>, the outside world, standard output,
  the loop variables \<^verbatim>\<open>done\<close> and \<^verbatim>\<open>tool_calls\<close>, and the log of steps, which nothing reads.
\<close>

record 'w pq_state =
  messages :: "message list"
  world :: 'w
  stdout :: "printed list"
  done_flag :: bool
  tool_calls :: int
  trace :: "event list"

subsection \<open>process_query\<close>

text \<open>\<^verbatim>\<open>" ".join(xs)\<close>\<close>

fun join_sp :: "string list \<Rightarrow> string" where
  "join_sp [] = []"
| "join_sp [x] = x"
| "join_sp (x # y # ys) = x @ '' '' @ join_sp (y # ys)"

definition default_model :: string where
  "default_model = ''claude-3-7-sonnet-20250219''"

definition get_anthropic_response ::
  "'w gateways \<Rightarrow> message list \<Rightarrow> tool_param list \<Rightarrow> nat \<Rightarrow> 'w \<Rightarrow> block list \<times> 'w" where
  "get_anthropic_response gw msgs tools max_tokens w =
     create gw default_model msgs tools max_tokens w"

definition append_message :: "message \<Rightarrow> 'w pq_state \<Rightarrow> 'w pq_state" where
  "append_message m s = s\<lparr>messages := messages s @ [m], trace := trace s @ [Append m]\<rparr>"

definition tool_use_message :: "string \<Rightarrow> string \<Rightarrow> json \<Rightarrow> string option \<Rightarrow> message" where
  "tool_use_message tool_use_id nm inp txt =
     \<lparr>role = Assistant,
      content = Items ((case txt of
                          None \<Rightarrow> []
                        | Some t \<Rightarrow> if t \<noteq> [] then [TextItem t] else [])
                       @ [ToolUseItem tool_use_id nm inp])\<rparr>"

definition tool_result_message :: "string \<Rightarrow> string \<Rightarrow> message" where
  "tool_result_message tool_use_id c =
     \<lparr>role = User, content = Items [ToolResultItem tool_use_id c]\<rparr>"

definition no_response :: string where
  "no_response = ''No response from tool''"

text \<open>The body of the \<^verbatim>\<open>for content in response.content\<close> loop.\<close>

fun process_block :: "'w gateways \<Rightarrow> block \<Rightarrow> 'w pq_state \<Rightarrow> 'w pq_state" where
  "process_block gw (TextBlock t) s =
     append_message \<lparr>role = Assistant, content = Plain t\<rparr>
       (s\<lparr>stdout := stdout s @ [PrintText (t @ [CHR 0x0A])]\<rparr>)"
| "process_block gw (ToolUseBlock tool_use_id nm inp txt) s =
     (let s1 = s\<lparr>done_flag := False\<rparr>;
          s2 = (case txt of
                  None \<Rightarrow> s1
                | Some t \<Rightarrow> if t \<noteq> [] then s1\<lparr>stdout := stdout s1 @ [PrintText (t @ [CHR 0x0A])]\<rparr>
                           else s1);
          s3 = append_message (tool_use_message tool_use_id nm inp txt) s2;
          s4 = s3\<lparr>stdout := stdout s3 @ [PrintCalling nm inp]\<rparr>;
          (texts, w) = call_tool gw nm inp (world s4);
          result_content = join_sp texts;
          s5 = s4\<lparr>world := w, trace := trace s4 @ [Call nm inp texts],
                  tool_calls := tool_calls s4 + 1\<rparr>
      in if result_content \<noteq> []
         then append_message (tool_result_message tool_use_id result_content) s5
         else (append_message (tool_result_message tool_use_id no_response) s5)
                \<lparr>done_flag := True\<rparr>)"
| "process_block gw OtherBlock s = s"

fun for_blocks :: "'w gateways \<Rightarrow> block list \<Rightarrow> 'w pq_state \<Rightarrow> 'w pq_state" where
  "for_blocks gw [] s = s"
| "for_blocks gw (b # bs) s = for_blocks gw bs (process_block gw b s)"

text \<open>One pass through the body of the \<^verbatim>\<open>while\<close> loop.\<close>

definition round_body :: "'w gateways \<Rightarrow> tool_param list \<Rightarrow> 'w pq_state \<Rightarrow> 'w pq_state" where
  "round_body gw available_tools s =
     (let (response, w) = get_anthropic_response gw (messages s) available_tools 1000 (world s);
          s1 = s\<lparr>world := w, trace := trace s @ [Infer], done_flag := True\<rparr>
      in for_blocks gw response s1)"

lemma process_block_progress:
  "tool_calls s \<le> tool_calls (process_block gw b s) \<and>
   (done_flag s \<longrightarrow> \<not> done_flag (process_block gw b s) \<longrightarrow>
      tool_calls s < tool_calls (process_block gw b s))"
  by (cases b) (auto simp: append_message_def Let_def split: prod.splits option.splits)

lemma for_blocks_progress:
  "tool_calls s \<le> tool_calls (for_blocks gw bs s) \<and>
   (done_flag s \<longrightarrow> \<not> done_flag (for_blocks gw bs s) \<longrightarrow>
      tool_calls s < tool_calls (for_blocks gw bs s))"
proof (induction bs arbitrary: s)
  case Nil
  show ?case by simp
next
  case (Cons b bs)
  let ?s1 = "process_block gw b s"
  have step: "tool_calls s \<le> tool_calls ?s1"
    and stepd: "done_flag s \<Longrightarrow> \<not> done_flag ?s1 \<Longrightarrow> tool_calls s < tool_calls ?s1"
    using process_block_progress [of s gw b] by auto
  have rest: "tool_calls ?s1 \<le> tool_calls (for_blocks gw bs ?s1)"
    and restd: "done_flag ?s1 \<Longrightarrow> \<not> done_flag (for_blocks gw bs ?s1) \<Longrightarrow>
                  tool_calls ?s1 < tool_calls (for_blocks gw bs ?s1)"
    using Cons.IH [of ?s1] by auto
  show ?case
  proof (cases "done_flag ?s1")
    case True
    then show ?thesis using step rest restd by auto
  next
    case False
    then show ?thesis using step stepd rest by auto
  qed
qed

lemma round_body_progress:
  "\<not> done_flag (round_body gw ts s) \<Longrightarrow> tool_calls s < tool_calls (round_body gw ts s)"
  using for_blocks_progress
    [of "s\<lparr>world := w, trace := trace s @ [Infer], done_flag := True\<rparr>" gw bs for w bs]
  by (auto simp: round_body_def Let_def split: prod.splits)

text \<open>The \<^verbatim>\<open>while not done and tool_calls < max_tool_calls\<close> loop.\<close>

function while_loop ::
  "'w gateways \<Rightarrow> int \<Rightarrow> tool_param list \<Rightarrow> 'w pq_state \<Rightarrow> 'w pq_state" where
  "while_loop gw max_tool_calls available_tools s =
     (if \<not> done_flag s \<and> tool_calls s < max_tool_calls
      then while_loop gw max_tool_calls available_tools (round_body gw available_tools s)
      else s)"
  by pat_completeness auto
termination
proof (relation "measure (\<lambda>(gw, n, ts, s). if done_flag s then 0 else nat (n - tool_calls s))")
  show "wf (measure (\<lambda>(gw, n, ts, s). if done_flag s then 0 else nat (n - tool_calls s)))"
    by simp
next
  fix gw :: "'w gateways" and max_tool_calls :: int and available_tools :: "tool_param list"
    and s :: "'w pq_state"
  assume c: "\<not> done_flag s \<and> tool_calls s < max_tool_calls"
  show "((gw, max_tool_calls, available_tools, round_body gw available_tools s),
         (gw, max_tool_calls, available_tools, s))
        \<in> measure (\<lambda>(gw, n, ts, s). if done_flag s then 0 else nat (n - tool_calls s))"
    using c round_body_progress [of gw available_tools s] by auto
qed

declare while_loop.simps [simp del]

text \<open>
  The client object between queries: \<^verbatim>\<open>self.messages\<close>, the outside world and standard
  output.
\<close>

record 'w client =
  c_messages :: "message list"
  c_world :: 'w
  c_stdout :: "printed list"

definition process_query :: "'w gateways \<Rightarrow> string \<Rightarrow> int \<Rightarrow> 'w client \<Rightarrow> 'w pq_state" where
  "process_query gw query max_tool_calls c =
     (let user_message = \<lparr>role = User, content = Plain query\<rparr>;
          (tools, w) = list_tools gw (c_world c);
          available_tools = map (\<lambda>t. (tool_name t, tool_description t, tool_inputSchema t)) tools;
          s = \<lparr>messages = c_messages c @ [user_message], world = w, stdout = c_stdout c,
               done_flag = False, tool_calls = 0, trace = [Append user_message]\<rparr>
      in while_loop gw max_tool_calls available_tools s)"

section \<open>The fetcher (openf1_utils.py)\<close>

definition BASE_URL :: string where
  "BASE_URL = ''https://api.openf1.org/v1''"

text \<open>The exceptions that the server's code can meet.\<close>

datatype exn =
    RequestError
  | HTTPStatusError nat
  | JSONDecodeError
  | KeyError string
  | IndexError
  | TypeError
  | ValidationError

datatype log_entry =
    Failed_after nat string exn
  | Retry nat nat string exn
  | Warning string

text \<open>
  One HTTP attempt (\<^verbatim>\<open>client.get\<close>, \<^verbatim>\<open>raise_for_status\<close>, \<^verbatim>\<open>response.json\<close>) either
  raises or yields the decoded body; it may change the outside world.
\<close>

type_synonym 'w http = "string \<Rightarrow> 'w \<Rightarrow> (exn + json) \<times> 'w"

text \<open>
  The server's surroundings: the outside world, the log written through \<^verbatim>\<open>logger\<close>, and
  the URLs of the attempts made so far, which nothing reads.
\<close>

record 'w io =
  io_world :: 'w
  io_log :: "log_entry list"
  io_requests :: "string list"

definition max_retries :: nat where
  "max_retries = 5"

text \<open>\<^verbatim>\<open>url[len(BASE_URL):]\<close>\<close>

definition url_path :: "string \<Rightarrow> string" where
  "url_path url = drop (length BASE_URL) url"

text \<open>
  The \<^verbatim>\<open>while retries < max_retries\<close> loop of \<^verbatim>\<open>get_response\<close>, from a given value of
  \<^verbatim>\<open>retries\<close>. The function returns \<^verbatim>\<open>None\<close> (\<open>JNull\<close>) when the loop is left.
\<close>

function get_response_loop :: "'w http \<Rightarrow> string \<Rightarrow> nat \<Rightarrow> 'w io \<Rightarrow> json \<times> 'w io" where
  "get_response_loop http_get url retries st =
     (if retries < max_retries
      then (case http_get url (io_world st) of
              (Inr payload, w) \<Rightarrow>
                (payload, st\<lparr>io_world := w, io_requests := io_requests st @ [url]\<rparr>)
            | (Inl e, w) \<Rightarrow>
                (let st1 = st\<lparr>io_world := w, io_requests := io_requests st @ [url]\<rparr>;
                     retries1 = retries + 1
                 in if retries1 = max_retries
                    then (JNull, st1\<lparr>io_log := io_log st1 @
                                  [Failed_after max_retries (url_path url) e]\<rparr>)
                    else get_response_loop http_get url retries1
                           (st1\<lparr>io_log := io_log st1 @
                                  [Retry retries1 max_retries (url_path url) e]\<rparr>)))
      else (JNull, st))"
  by pat_completeness auto
termination
  by (relation "measure (\<lambda>(h, u, r, st). max_retries - r)") auto

declare get_response_loop.simps [simp del]

definition get_response :: "'w http \<Rightarrow> string \<Rightarrow> 'w io \<Rightarrow> json \<times> 'w io" where
  "get_response http_get url st = get_response_loop http_get url 0 st"

section \<open>The model classes (f1_types.py)\<close>


record driver =
  d_broadcast_name :: string
  d_driver_number :: int
  d_first_name :: string
  d_last_name :: string
  d_name_acronym :: string
  d_team_name :: string
  d_team_colour :: "string option"
  d_headshot_url :: "string option"

record mini_sector_value =
  performance :: "string option"

record lap =
  l_date_start :: "string option"
  l_duration_sector_1 :: "rat option"
  l_duration_sector_2 :: "rat option"
  l_duration_sector_3 :: "rat option"
  l_i1_speed :: "rat option"
  l_i2_speed :: "rat option"
  l_st_speed :: "rat option"
  l_is_pit_out_lap :: "bool option"
  l_lap_duration :: "rat option"
  l_segments_sector_1 :: "mini_sector_value list option"
  l_segments_sector_2 :: "mini_sector_value list option"
  l_segments_sector_3 :: "mini_sector_value list option"

record track_conditions =
  t_session_key :: int
  t_date :: string
  t_air_temperature :: rat
  t_humidity :: rat
  t_pressure :: rat
  t_rainfall :: rat
  t_track_temperature :: rat
  t_wind_direction :: rat
  t_wind_speed :: rat



section \<open>The tools (stdio_server.py)\<close>

subsection \<open>Python operations on decoded values\<close>













subsection \<open>get_sessions\<close>




subsection \<open>get_drivers\<close>



subsection \<open>get_laps\<close>






subsection \<open>get_track_conditions\<close>



section \<open>Facts about the client's loop\<close>

subsection \<open>Reading the log\<close>


fun is_infer :: "event \<Rightarrow> bool" where
  "is_infer Infer = True"
| "is_infer _ = False"

fun is_call :: "event \<Rightarrow> bool" where
  "is_call (Call _ _ _) = True"
| "is_call _ = False"

definition n_infer :: "event list \<Rightarrow> nat" where
  "n_infer tr = length (filter is_infer tr)"

definition n_calls :: "event list \<Rightarrow> nat" where
  "n_calls tr = length (filter is_call tr)"

fun appended :: "event list \<Rightarrow> message list" where
  "appended [] = []"
| "appended (Append m # es) = m # appended es"
| "appended (_ # es) = appended es"

definition tool_uses :: "message \<Rightarrow> (string \<times> string \<times> json) list" where
  "tool_uses m =
     (case content m of
        Plain _ \<Rightarrow> []
      | Items its \<Rightarrow> concat (map (\<lambda>it. case it of ToolUseItem x n a \<Rightarrow> [(x, n, a)] | _ \<Rightarrow> []) its))"

fun is_tool_use :: "block \<Rightarrow> bool" where
  "is_tool_use (ToolUseBlock _ _ _ _) = True"
| "is_tool_use _ = False"


lemma appended_append [simp]: "appended (xs @ ys) = appended xs @ appended ys"
  by (induction xs rule: appended.induct) auto

lemma n_infer_append [simp]: "n_infer (xs @ ys) = n_infer xs + n_infer ys"
  by (simp add: n_infer_def)

lemma n_calls_append [simp]: "n_calls (xs @ ys) = n_calls xs + n_calls ys"
  by (simp add: n_calls_def)

text \<open>What one block adds to the log, the history and the counter.\<close>

definition block_step :: "'w pq_state \<Rightarrow> 'w pq_state \<Rightarrow> event list \<Rightarrow> bool" where
  "block_step s s' ev \<longleftrightarrow>
     trace s' = trace s @ ev \<and> messages s' = messages s @ appended ev \<and>
     tool_calls s' = tool_calls s + int (n_calls ev) \<and> n_infer ev = 0"

lemma process_block_events:
  "\<exists>ev. block_step s (process_block gw b s) ev \<and>
     (ev = [] \<or> (\<exists>t. ev = [Append \<lparr>role = Assistant, content = Plain t\<rparr>]) \<or>
      (\<exists>x n a txt texts c. ev = [Append (tool_use_message x n a txt), Call n a texts,
                                   Append (tool_result_message x c)]))"
proof (cases b)
  case (TextBlock t)
  then show ?thesis
    by (simp add: block_step_def append_message_def n_calls_def n_infer_def)
next
  case (ToolUseBlock x n a tx)
  obtain texts w where ct: "call_tool gw n a (world s) = (texts, w)"
    by (cases "call_tool gw n a (world s)")
  let ?c = "if join_sp texts \<noteq> [] then join_sp texts else no_response"
  have "block_step s (process_block gw b s)
          [Append (tool_use_message x n a tx), Call n a texts, Append (tool_result_message x ?c)]"
    using ToolUseBlock ct
    by (cases tx) (simp_all add: block_step_def append_message_def n_calls_def n_infer_def Let_def)
  then show ?thesis by blast
next
  case OtherBlock
  then show ?thesis
    by (simp add: block_step_def n_calls_def n_infer_def)
qed


definition answered :: "event list \<Rightarrow> bool" where
  "answered tr \<longleftrightarrow>
     (\<forall>i<length tr. \<forall>m. tr ! i = Append m \<longrightarrow>
        (\<forall>(x, n, a) \<in> set (tool_uses m).
           i + 2 < length tr \<and> (\<exists>texts. tr ! (i + 1) = Call n a texts) \<and>
           (\<exists>c. tr ! (i + 2) = Append (tool_result_message x c))))"

lemma answered_append:
  assumes "answered xs" and "answered ys"
  shows "answered (xs @ ys)"
  unfolding answered_def
proof (intro allI impI)
  fix i m
  assume i: "i < length (xs @ ys)" and m: "(xs @ ys) ! i = Append m"
  show "\<forall>(x, n, a) \<in> set (tool_uses m).
           i + 2 < length (xs @ ys) \<and> (\<exists>texts. (xs @ ys) ! (i + 1) = Call n a texts) \<and>
           (\<exists>c. (xs @ ys) ! (i + 2) = Append (tool_result_message x c))"
  proof (cases "i < length xs")
    case True
    then have "xs ! i = Append m" using m by (simp add: nth_append)
    then have "\<forall>(x, n, a) \<in> set (tool_uses m).
           i + 2 < length xs \<and> (\<exists>texts. xs ! (i + 1) = Call n a texts) \<and>
           (\<exists>c. xs ! (i + 2) = Append (tool_result_message x c))"
      using assms(1) True unfolding answered_def by blast
    then show ?thesis by (auto simp: nth_append)
  next
    case False
    define j where "j = i - length xs"
    have j: "j < length ys" and ij: "i = length xs + j" using False i by (auto simp: j_def)
    have "ys ! j = Append m" using m ij by (simp add: nth_append)
    then have "\<forall>(x, n, a) \<in> set (tool_uses m).
           j + 2 < length ys \<and> (\<exists>texts. ys ! (j + 1) = Call n a texts) \<and>
           (\<exists>c. ys ! (j + 2) = Append (tool_result_message x c))"
      using assms(2) j unfolding answered_def by blast
    then show ?thesis unfolding ij by (auto simp: nth_append)
  qed
qed

lemma answered_Nil: "answered []"
  by (simp add: answered_def)

lemma answered_plain: "answered [Append \<lparr>role = r, content = Plain t\<rparr>]"
  by (simp add: answered_def tool_uses_def)


lemma tool_uses_tool_use_message: "tool_uses (tool_use_message x n a tx) = [(x, n, a)]"
  by (cases tx) (simp_all add: tool_uses_def tool_use_message_def)

lemma tool_uses_tool_result_message: "tool_uses (tool_result_message x c) = []"
  by (simp add: tool_uses_def tool_result_message_def)

lemma answered_tool_use:
  "answered [Append (tool_use_message x n a tx), Call n a texts, Append (tool_result_message x c)]"
  unfolding answered_def
proof (intro allI impI)
  fix i m
  let ?tr = "[Append (tool_use_message x n a tx), Call n a texts,
              Append (tool_result_message x c)]"
  assume i: "i < length ?tr" and m: "?tr ! i = Append m"
  from i have "i = 0 \<or> i = 1 \<or> i = 2" by auto
  then show "\<forall>(x', n', a') \<in> set (tool_uses m).
           i + 2 < length ?tr \<and> (\<exists>texts'. ?tr ! (i + 1) = Call n' a' texts') \<and>
           (\<exists>c'. ?tr ! (i + 2) = Append (tool_result_message x' c'))"
  proof (elim disjE)
    assume "i = 0"
    then have "m = tool_use_message x n a tx" using m by simp
    then show ?thesis using \<open>i = 0\<close> by (simp add: tool_uses_tool_use_message) blast
  next
    assume "i = 1"
    then show ?thesis using m by simp
  next
    assume "i = 2"
    then have "m = tool_result_message x c" using m by simp
    then show ?thesis by (simp add: tool_uses_tool_result_message)
  qed
qed

lemma block_step_refl: "block_step s s []"
  by (simp add: block_step_def n_calls_def n_infer_def)

lemma block_step_trans:
  "block_step s s1 ev1 \<Longrightarrow> block_step s1 s2 ev2 \<Longrightarrow> block_step s s2 (ev1 @ ev2)"
  by (simp add: block_step_def)

lemma for_blocks_events:
  "\<exists>ev. block_step s (for_blocks gw bs s) ev \<and> answered ev"
proof (induction bs arbitrary: s)
  case Nil
  show ?case using block_step_refl answered_Nil by auto
next
  case (Cons b bs)
  obtain ev1 where e1: "block_step s (process_block gw b s) ev1" and a1: "answered ev1"
    using process_block_events [of s gw b] answered_Nil answered_plain answered_tool_use
    by blast
  obtain ev2 where e2: "block_step (process_block gw b s) (for_blocks gw bs (process_block gw b s)) ev2"
    and a2: "answered ev2"
    using Cons.IH by blast
  show ?case
    using block_step_trans [OF e1 e2] answered_append [OF a1 a2] by auto
qed

lemma round_body_events:
  "\<exists>ev. trace (round_body gw ts s) = trace s @ Infer # ev \<and>
        messages (round_body gw ts s) = messages s @ appended ev \<and>
        tool_calls (round_body gw ts s) = tool_calls s + int (n_calls ev) \<and>
        n_infer ev = 0 \<and> answered ev"
proof -
  obtain bs w where r: "get_anthropic_response gw (messages s) ts 1000 (world s) = (bs, w)"
    by (cases "get_anthropic_response gw (messages s) ts 1000 (world s)")
  let ?s1 = "s\<lparr>world := w, trace := trace s @ [Infer], done_flag := True\<rparr>"
  obtain ev where "block_step ?s1 (for_blocks gw bs ?s1) ev" and "answered ev"
    using for_blocks_events by blast
  then show ?thesis using r by (auto simp: round_body_def block_step_def)
qed

text \<open>An invariant of the loop holds of its result.\<close>

lemma while_loop_stop:
  "done_flag s \<or> n \<le> tool_calls s \<Longrightarrow> while_loop gw n ts s = s"
  by (subst while_loop.simps) auto

lemma while_loop_go:
  "\<not> done_flag s \<Longrightarrow> tool_calls s < n \<Longrightarrow>
   while_loop gw n ts s = while_loop gw n ts (round_body gw ts s)"
  by (subst while_loop.simps) simp

lemma while_loop_invariant:
  assumes "P s"
    and "\<And>s. P s \<Longrightarrow> \<not> done_flag s \<Longrightarrow> tool_calls s < n \<Longrightarrow> P (round_body gw ts s)"
  shows "P (while_loop gw n ts s)"
  using assms
proof (induction gw n ts s rule: while_loop.induct)
  case (1 gw n ts s)
  show ?case
  proof (cases "\<not> done_flag s \<and> tool_calls s < n")
    case True
    then have "P (round_body gw ts s)" using "1.prems" by blast
    then have "P (while_loop gw n ts (round_body gw ts s))"
      using "1.IH" True "1.prems"(2) by blast
    then show ?thesis using True by (simp add: while_loop_go)
  next
    case False
    then have "while_loop gw n ts s = s" by (intro while_loop_stop) auto
    then show ?thesis using "1.prems"(1) by simp
  qed
qed


definition initial_state :: "'w gateways \<Rightarrow> string \<Rightarrow> 'w client \<Rightarrow> 'w pq_state" where
  "initial_state gw query c =
     \<lparr>messages = c_messages c @ [\<lparr>role = User, content = Plain query\<rparr>],
      world = snd (list_tools gw (c_world c)), stdout = c_stdout c,
      done_flag = False, tool_calls = 0,
      trace = [Append \<lparr>role = User, content = Plain query\<rparr>]\<rparr>"

definition catalog :: "'w gateways \<Rightarrow> 'w client \<Rightarrow> tool_param list" where
  "catalog gw c =
     map (\<lambda>t. (tool_name t, tool_description t, tool_inputSchema t)) (fst (list_tools gw (c_world c)))"

lemma process_query_while:
  "process_query gw query n c = while_loop gw n (catalog gw c) (initial_state gw query c)"
  by (simp add: process_query_def initial_state_def catalog_def Let_def split: prod.splits)

lemma infer_bound:
  "int (n_infer (trace (while_loop gw n ts s))) + 
     (if done_flag (while_loop gw n ts s) then 0 else max 0 (n - tool_calls (while_loop gw n ts s)))
   \<le> int (n_infer (trace s)) + (if done_flag s then 0 else max 0 (n - tool_calls s))"
proof (rule while_loop_invariant
    [where P = "\<lambda>s'. int (n_infer (trace s')) + (if done_flag s' then 0 else max 0 (n - tool_calls s'))
                  \<le> int (n_infer (trace s)) + (if done_flag s then 0 else max 0 (n - tool_calls s))"])
  show "int (n_infer (trace s)) + (if done_flag s then 0 else max 0 (n - tool_calls s))
        \<le> int (n_infer (trace s)) + (if done_flag s then 0 else max 0 (n - tool_calls s))"
    by simp
next
  fix s' :: "'a pq_state"
  assume inv: "int (n_infer (trace s')) + (if done_flag s' then 0 else max 0 (n - tool_calls s'))
                  \<le> int (n_infer (trace s)) + (if done_flag s then 0 else max 0 (n - tool_calls s))"
    and nd: "\<not> done_flag s'" and lt: "tool_calls s' < n"
  obtain ev where tr: "trace (round_body gw ts s') = trace s' @ Infer # ev" and ni: "n_infer ev = 0"
    using round_body_events [of gw ts s'] by blast
  have one: "n_infer (trace (round_body gw ts s')) = n_infer (trace s') + 1"
    using tr ni by (simp add: n_infer_def)
  have prog: "\<not> done_flag (round_body gw ts s') \<Longrightarrow> tool_calls s' < tool_calls (round_body gw ts s')"
    by (rule round_body_progress)
  show "int (n_infer (trace (round_body gw ts s'))) +
          (if done_flag (round_body gw ts s') then 0 else max 0 (n - tool_calls (round_body gw ts s')))
        \<le> int (n_infer (trace s)) + (if done_flag s then 0 else max 0 (n - tool_calls s))"
    using inv nd lt one prog by (cases "done_flag (round_body gw ts s')") auto
qed

lemma inference_calls_le_budget:
  "0 \<le> n \<Longrightarrow> int (n_infer (trace (process_query gw query n c))) \<le> n"
proof -
  assume n: "0 \<le> n"
  have "int (n_infer (trace (process_query gw query n c))) \<le>
        int (n_infer (trace (initial_state gw query c))) +
        (if done_flag (initial_state gw query c) then 0
         else max 0 (n - tool_calls (initial_state gw query c)))"
    using infer_bound [of gw n "catalog gw c" "initial_state gw query c"]
    unfolding process_query_while by (auto split: if_splits)
  also have "\<dots> = n" using n by (simp add: initial_state_def n_infer_def)
  finally show ?thesis .
qed

subsection \<open>How the loop moves the counter, the log and the flag\<close>















section \<open>Facts about the fetcher's loop\<close>

text \<open>The world after \<open>k\<close> attempts on a URL, and what the next attempt yields.\<close>

fun world_after :: "'w http \<Rightarrow> string \<Rightarrow> nat \<Rightarrow> 'w \<Rightarrow> 'w" where
  "world_after http_get url 0 w = w"
| "world_after http_get url (Suc k) w = world_after http_get url k (snd (http_get url w))"

definition attempt :: "'w http \<Rightarrow> string \<Rightarrow> nat \<Rightarrow> 'w \<Rightarrow> exn + json" where
  "attempt http_get url k w = fst (http_get url (world_after http_get url k w))"

lemma attempt_Suc:
  "attempt h u (Suc k) w = attempt h u k (snd (h u w))"
  by (simp add: attempt_def)

lemma loop_succeeds:
  assumes "r + k < max_retries"
    and "\<forall>i<k. isl (attempt h u i (io_world st))"
    and "attempt h u k (io_world st) = Inr p"
  shows "fst (get_response_loop h u r st) = p \<and>
         io_requests (snd (get_response_loop h u r st)) = io_requests st @ replicate (Suc k) u"
  using assms
proof (induction k arbitrary: r st)
  case 0
  then have "fst (h u (io_world st)) = Inr p" by (simp add: attempt_def)
  then show ?case
    using "0.prems"(1)
    by (subst (1 2) get_response_loop.simps) (auto split: prod.splits sum.splits)
next
  case (Suc k)
  obtain o1 w where hw: "h u (io_world st) = (o1, w)" by (cases "h u (io_world st)")
  have "isl (attempt h u 0 (io_world st))" using Suc.prems(2) by blast
  then obtain e where o1: "o1 = Inl e" using hw by (cases o1) (auto simp: attempt_def)
  let ?st' = "st\<lparr>io_world := w, io_requests := io_requests st @ [u],
                  io_log := io_log st @ [Retry (r + 1) max_retries (url_path u) e]\<rparr>"
  have step: "get_response_loop h u r st = get_response_loop h u (r + 1) ?st'"
    using Suc.prems(1) hw o1 by (subst get_response_loop.simps) (simp add: Let_def)
  have a: "\<forall>i<k. isl (attempt h u i (io_world ?st'))"
  proof (intro allI impI)
    fix i assume "i < k"
    then have "isl (attempt h u (Suc i) (io_world st))" using Suc.prems(2) by simp
    then show "isl (attempt h u i (io_world ?st'))" using hw by (simp add: attempt_Suc)
  qed
  have b: "attempt h u k (io_world ?st') = Inr p"
    using Suc.prems(3) hw by (simp add: attempt_Suc)
  have "fst (get_response_loop h u (r + 1) ?st') = p \<and>
        io_requests (snd (get_response_loop h u (r + 1) ?st')) =
          io_requests ?st' @ replicate (Suc k) u"
    using Suc.prems(1) by (intro Suc.IH [OF _ a b]) simp
  then show ?case unfolding step by (simp add: replicate_append_same)
qed

lemma loop_gives_up:
  assumes "r + k = max_retries" and "0 < k"
    and "\<forall>i<k. isl (attempt h u i (io_world st))"
  shows "fst (get_response_loop h u r st) = JNull \<and>
         io_requests (snd (get_response_loop h u r st)) = io_requests st @ replicate k u"
  using assms
proof (induction k arbitrary: r st)
  case 0
  then show ?case by simp
next
  case (Suc k)
  obtain o1 w where hw: "h u (io_world st) = (o1, w)" by (cases "h u (io_world st)")
  have "isl (attempt h u 0 (io_world st))" using Suc.prems(3) by blast
  then obtain e where o1: "o1 = Inl e" using hw by (cases o1) (auto simp: attempt_def)
  show ?case
  proof (cases "k = 0")
    case True
    then have "r + 1 = max_retries" using Suc.prems(1) by simp
    then show ?thesis
      using hw o1 True
      by (subst (1 2) get_response_loop.simps) (simp add: Let_def)
  next
    case False
    let ?st' = "st\<lparr>io_world := w, io_requests := io_requests st @ [u],
                    io_log := io_log st @ [Retry (r + 1) max_retries (url_path u) e]\<rparr>"
    have lt: "r < max_retries" and ne: "r + 1 \<noteq> max_retries"
      using Suc.prems(1) False by auto
    have step: "get_response_loop h u r st = get_response_loop h u (r + 1) ?st'"
      using lt ne hw o1 by (subst get_response_loop.simps) (simp add: Let_def)
    have a: "\<forall>i<k. isl (attempt h u i (io_world ?st'))"
    proof (intro allI impI)
      fix i assume "i < k"
      then have "isl (attempt h u (Suc i) (io_world st))" using Suc.prems(3) by simp
      then show "isl (attempt h u i (io_world ?st'))" using hw by (simp add: attempt_Suc)
    qed
    have "fst (get_response_loop h u (r + 1) ?st') = JNull \<and>
          io_requests (snd (get_response_loop h u (r + 1) ?st')) =
            io_requests ?st' @ replicate k u"
      using Suc.prems(1) False by (intro Suc.IH [OF _ _ a]) simp_all
    then show ?thesis unfolding step by (simp add: replicate_append_same)
  qed
qed

section \<open>Sample surroundings\<close>

subsection \<open>Sample gateways\<close>

text \<open>
  \<open>scripted bs\<close>: the model answers the first inference call with the blocks \<open>bs\<close> and
  every later one with a text; tool \<open>a\<close> returns no content, every other tool returns the
  one piece \<open>x\<close>. The world counts the inference calls.
\<close>

definition scripted :: "block list \<Rightarrow> nat gateways" where
  "scripted first_response =
     \<lparr>list_tools = (\<lambda>w. ([], w)),
      call_tool = (\<lambda>nm inp w. (if nm = ''a'' then [] else [''x''], w)),
      create = (\<lambda>model msgs tools max_tokens w.
        (if w = 0 then first_response else [TextBlock ''bye''], Suc w))\<rparr>"

definition two_tools :: "nat gateways" where
  "two_tools =
     scripted [ToolUseBlock ''id1'' ''a'' (JObj []) None, ToolUseBlock ''id2'' ''b'' (JObj []) None]"

definition one_call :: "string \<Rightarrow> nat gateways" where
  "one_call nm = scripted [ToolUseBlock ''id1'' nm (JObj []) None]"



definition client0 :: "nat client" where
  "client0 = \<lparr>c_messages = [], c_world = 0, c_stdout = []\<rparr>"

text \<open>A model that asks for two tool calls in every response, and a tool that always answers.\<close>

definition always_tools :: "unit gateways" where
  "always_tools =
     \<lparr>list_tools = (\<lambda>w. ([\<lparr>tool_name = ''get_laps'', tool_description = ''laps'',
                               tool_inputSchema = JObj []\<rparr>], w)),
      call_tool = (\<lambda>nm inp w. ([''lap''], w)),
      create = (\<lambda>model msgs tools max_tokens w.
        ([ToolUseBlock ''t1'' ''get_laps'' (JObj []) None,
          ToolUseBlock ''t2'' ''get_laps'' (JObj []) None], w))\<rparr>"

definition unit_client :: "unit client" where
  "unit_client = \<lparr>c_messages = [], c_world = (), c_stdout = []\<rparr>"

lemmas eval_defs = process_query_def while_loop.simps round_body_def get_anthropic_response_def
  append_message_def tool_use_message_def tool_result_message_def no_response_def Let_def
  n_calls_def n_infer_def

text \<open>An endpoint that fails its first \<open>k\<close> attempts; the world counts the attempts.\<close>

definition flaky :: "nat \<Rightarrow> nat http" where
  "flaky k url w = (if w < k then Inl RequestError else Inr (JList [JInt (int w)]), Suc w)"

definition io0 :: "nat io" where
  "io0 = \<lparr>io_world = 0, io_log = [], io_requests = []\<rparr>"

lemma world_after_flaky: "world_after (flaky k) u i w = w + i"
  by (induction i arbitrary: w) (simp_all add: flaky_def)

lemma attempt_flaky:
  "attempt (flaky k) u i w = (if w + i < k then Inl RequestError else Inr (JList [JInt (int (w + i))]))"
  by (simp add: attempt_def world_after_flaky flaky_def)










section \<open>Properties of process_query\<close>




text \<open>
  C2, as the code has it. The specification says the counter is incremented only when the joined
  result is non-empty. \<^verbatim>\<open>tool_calls += 1\<close> stands before the test of the result: a
  tool-use block raises the counter by one whatever the tool returns, and appends the
  tool-use message followed by the tool-result message, which carries the joined result
  when it is non-empty and the placeholder otherwise.
\<close>

theorem every_tool_call_is_counted:
  assumes "call_tool gw nm inp (world s) = (texts, w)"
  shows "tool_calls (process_block gw (ToolUseBlock x nm inp tx) s) = tool_calls s + 1 \<and>
         messages (process_block gw (ToolUseBlock x nm inp tx) s) =
           messages s @ [tool_use_message x nm inp tx,
                         tool_result_message x
                           (if join_sp texts \<noteq> [] then join_sp texts else no_response)]"
  using assms by (cases tx) (simp_all add: append_message_def Let_def)

theorem every_tool_call_is_counted_witness:
  "call_tool (one_call ''a'') ''a'' (JObj []) (world (initial_state (one_call ''a'') ''q'' client0)) = ([], 0) \<and>
   tool_calls (process_block (one_call ''a'') (ToolUseBlock ''id1'' ''a'' (JObj []) None)
                 (initial_state (one_call ''a'') ''q'' client0)) = 0 + 1"
proof -
  have c: "call_tool (one_call ''a'') ''a'' (JObj [])
             (world (initial_state (one_call ''a'') ''q'' client0)) = ([], 0)"
    by (simp add: one_call_def scripted_def initial_state_def client0_def)
  have z: "tool_calls (initial_state (one_call ''a'') ''q'' client0) = 0"
    by (simp add: initial_state_def)
  show ?thesis
    using every_tool_call_is_counted [OF c, of "''id1''" None] c z by simp
qed

text \<open>A tool that returns no content: its call is counted.\<close>

theorem empty_result_is_counted:
  "join_sp (fst (call_tool (one_call ''a'') ''a'' (JObj []) 1)) = [] \<and>
   trace (process_query (one_call ''a'') ''q'' 5 client0) =
     [Append \<lparr>role = User, content = Plain ''q''\<rparr>, Infer,
      Append (tool_use_message ''id1'' ''a'' (JObj []) None),
      Call ''a'' (JObj []) [],
      Append (tool_result_message ''id1'' no_response)] \<and>
   tool_calls (process_query (one_call ''a'') ''q'' 5 client0) = 1"
  by (simp add: eval_defs one_call_def scripted_def client0_def)

text \<open>
  C3. For every budget \<open>n \<ge> 0\<close> and whatever the model and the tools answer,
  \<^verbatim>\<open>process_query\<close> terminates (\<open>while_loop\<close> is a total function, by the measure
  given at its definition) and makes at most \<open>n + 1\<close> inference calls; in fact at most
  \<open>n\<close>, by \<open>inference_calls_le_budget\<close>.
\<close>

theorem process_query_inference_bound:
  "0 \<le> n \<Longrightarrow> int (n_infer (trace (process_query gw query n c))) \<le> n + 1"
  using inference_calls_le_budget [of n gw query c] by simp

theorem process_query_inference_bound_witness:
  "(0::int) \<le> 5 \<and> int (n_infer (trace (process_query two_tools ''q'' 5 client0))) \<le> 5 + 1"
  using process_query_inference_bound [of 5 two_tools "''q''" client0] by simp









text \<open>
  C9. With \<^verbatim>\<open>max_tool_calls = 0\<close> the loop body never runs: whatever the model would
  answer, no tool is executed (and no inference call is made); only the user message is
  appended.
\<close>

theorem zero_budget_runs_no_tool:
  "n_calls (trace (process_query gw query 0 c)) = 0 \<and>
   n_infer (trace (process_query gw query 0 c)) = 0 \<and>
   tool_calls (process_query gw query 0 c) = 0 \<and>
   messages (process_query gw query 0 c) = c_messages c @ [\<lparr>role = User, content = Plain query\<rparr>]"
proof -
  have "process_query gw query 0 c = initial_state gw query c"
    unfolding process_query_while by (rule while_loop_stop) (simp add: initial_state_def)
  then show ?thesis by (simp add: initial_state_def n_calls_def n_infer_def)
qed

theorem zero_budget_runs_no_tool_witness:
  "is_tool_use (hd (fst (create always_tools default_model [] [] 1000 ()))) \<and>
   n_calls (trace (process_query always_tools ''q'' 0 unit_client)) = 0 \<and>
   n_infer (trace (process_query always_tools ''q'' 0 unit_client)) = 0"
  using zero_budget_runs_no_tool [of always_tools "''q''" unit_client]
  by (simp add: always_tools_def)

section \<open>Properties of the fetcher and the tools\<close>

text \<open>
  C5. When the first \<open>k < max_retries\<close> attempts on a URL raise and the next one
  succeeds, \<^verbatim>\<open>get_response\<close> makes exactly \<open>k + 1\<close> attempts and returns that attempt's
  decoded body; when the first \<open>max_retries = 5\<close> attempts all raise, it makes exactly 5
  attempts and returns \<^verbatim>\<open>None\<close>. Its result is a value in every case: the handler
  catches each exception of an attempt, so none reaches the caller.
\<close>

theorem get_response_attempts:
  "(k < max_retries \<and> (\<forall>i<k. isl (attempt http_get url i (io_world st))) \<and>
      attempt http_get url k (io_world st) = Inr payload \<longrightarrow>
      fst (get_response http_get url st) = payload \<and>
      io_requests (snd (get_response http_get url st)) = io_requests st @ replicate (k + 1) url) \<and>
   ((\<forall>i<max_retries. isl (attempt http_get url i (io_world st))) \<longrightarrow>
      fst (get_response http_get url st) = JNull \<and>
      io_requests (snd (get_response http_get url st)) = io_requests st @ replicate max_retries url) \<and>
   max_retries = 5"
proof (intro conjI impI)
  assume a: "k < max_retries \<and> (\<forall>i<k. isl (attempt http_get url i (io_world st))) \<and>
      attempt http_get url k (io_world st) = Inr payload"
  show "fst (get_response http_get url st) = payload"
    and "io_requests (snd (get_response http_get url st)) = io_requests st @ replicate (k + 1) url"
    using loop_succeeds [of 0 k http_get url st payload] a by (simp_all add: get_response_def)
next
  assume a: "\<forall>i<max_retries. isl (attempt http_get url i (io_world st))"
  show "fst (get_response http_get url st) = JNull"
    and "io_requests (snd (get_response http_get url st)) = io_requests st @ replicate max_retries url"
    using loop_gives_up [of 0 max_retries http_get url st] a
    by (simp_all add: get_response_def max_retries_def)
next
  show "max_retries = 5" by (simp add: max_retries_def)
qed

theorem get_response_attempts_witness:
  "(2::nat) < max_retries \<and> attempt (flaky 2) ''u'' 2 (io_world io0) = Inr (JList [JInt 2]) \<and>
   fst (get_response (flaky 2) ''u'' io0) = JList [JInt 2] \<and>
   io_requests (snd (get_response (flaky 2) ''u'' io0)) = [''u'', ''u'', ''u''] \<and>
   fst (get_response (flaky 9) ''u'' io0) = JNull \<and>
   io_requests (snd (get_response (flaky 9) ''u'' io0)) = [''u'', ''u'', ''u'', ''u'', ''u'']"
proof -
  have a: "(2::nat) < max_retries \<and> (\<forall>i<2. isl (attempt (flaky 2) ''u'' i (io_world io0))) \<and>
      attempt (flaky 2) ''u'' 2 (io_world io0) = Inr (JList [JInt 2])"
    by (simp add: attempt_flaky io0_def max_retries_def)
  have b: "\<forall>i<max_retries. isl (attempt (flaky 9) ''u'' i (io_world io0))"
    by (simp add: attempt_flaky io0_def max_retries_def)
  have r3: "replicate (2 + 1) ''u'' = [''u'', ''u'', ''u'']"
    and r5: "replicate max_retries ''u'' = [''u'', ''u'', ''u'', ''u'', ''u'']"
    by (simp_all add: max_retries_def numeral_3_eq_3 eval_nat_numeral)
  show ?thesis
    using get_response_attempts [of 2 "flaky 2" "''u''" io0 "JList [JInt 2]"]
      get_response_attempts [of 0 "flaky 9" "''u''" io0 JNull] a b r3 r5
    by (simp add: io0_def)
qed






end
